theory Spec2Isabelle
  imports Main "HOL-Library.Word"
begin

section \<open>Strings of the source language\<close>

text \<open>
  A JavaScript string is a sequence of UTF-16 code units; \<open>length\<close>, \<open>slice\<close>, \<open>split\<close>
  and the regular expressions of \<^verbatim>\<open>mention.ts\<close> (none of which carries the \<^verbatim>\<open>u\<close> flag) all
  work on code units.
\<close>

type_synonym jschar = "16 word"
type_synonym jsstring = "jschar list"

definition js :: "string \<Rightarrow> jsstring" where
  \<comment> \<open>an ASCII literal of the source as code units\<close>
  "js s = map (\<lambda>c. of_nat (of_char c)) s"

definition js_slice :: "nat \<Rightarrow> nat \<Rightarrow> 'a list \<Rightarrow> 'a list" where
  \<comment> \<open>\<^verbatim>\<open>s.slice(b, e)\<close> for non-negative \<^verbatim>\<open>b\<close> and \<^verbatim>\<open>e\<close>: both ends are clipped to the length\<close>
  "js_slice b e s = take (e - b) (drop b s)"

fun js_split :: "jschar \<Rightarrow> jsstring \<Rightarrow> jsstring list" where
  \<comment> \<open>\<^verbatim>\<open>s.split(c)\<close> for a one-character separator: never empty, \<^verbatim>\<open>"".split(c)\<close> is \<^verbatim>\<open>[""]\<close>\<close>
  "js_split c [] = [[]]"
| "js_split c (x # xs) =
     (if x = c then [] # js_split c xs
      else (case js_split c xs of
              [] \<Rightarrow> [[x]]
            | h # t \<Rightarrow> (x # h) # t))"

definition js_to_string :: "jsstring option \<Rightarrow> jsstring" where
  \<comment> \<open>\<^verbatim>\<open>RegExp.prototype.test\<close> converts its argument to a string; \<^verbatim>\<open>undefined\<close> becomes \<^verbatim>\<open>"undefined"\<close>\<close>
  "js_to_string v = (case v of None \<Rightarrow> js ''undefined'' | Some s \<Rightarrow> s)"

section \<open>Character classes\<close>

definition is_line_terminator :: "jschar \<Rightarrow> bool" where
  \<comment> \<open>the characters \<^verbatim>\<open>.\<close> does not match, and before which \<^verbatim>\<open>$\<close> matches under the \<^verbatim>\<open>m\<close> flag\<close>
  "is_line_terminator c = (c = 0x0A \<or> c = 0x0D \<or> c = 0x2028 \<or> c = 0x2029)"

definition is_space :: "jschar \<Rightarrow> bool" where
  \<comment> \<open>the class \<^verbatim>\<open>\s\<close>: white space and line terminators\<close>
  "is_space c =
     (c = 0x09 \<or> c = 0x0A \<or> c = 0x0B \<or> c = 0x0C \<or> c = 0x0D \<or> c = 0x20 \<or> c = 0xA0
      \<or> c = 0x1680 \<or> (0x2000 \<le> c \<and> c \<le> 0x200A) \<or> c = 0x2028 \<or> c = 0x2029
      \<or> c = 0x202F \<or> c = 0x205F \<or> c = 0x3000 \<or> c = 0xFEFF)"

definition char_trigger :: jschar where
  \<comment> \<open>\<^verbatim>\<open>const char = '@'\<close>\<close>
  "char_trigger = 0x40"

definition allowed_char :: "jschar \<Rightarrow> bool" where
  \<comment> \<open>the class of \<^verbatim>\<open>allowedChars\<close>: A-Z a-z U+00C0-U+00D6 U+00D8-U+00F6 U+00F8-U+00FF 0-9
      ' " , ( ) - and \<^verbatim>\<open>\s\<close>\<close>
  "allowed_char c =
     ((0x41 \<le> c \<and> c \<le> 0x5A) \<or> (0x61 \<le> c \<and> c \<le> 0x7A)
      \<or> (0xC0 \<le> c \<and> c \<le> 0xD6) \<or> (0xD8 \<le> c \<and> c \<le> 0xF6) \<or> (0xF8 \<le> c \<and> c \<le> 0xFF)
      \<or> (0x30 \<le> c \<and> c \<le> 0x39)
      \<or> c = 0x27 \<or> c = 0x22 \<or> c = 0x2C \<or> c = 0x28 \<or> c = 0x29 \<or> c = 0x2D
      \<or> is_space c)"

section \<open>The regular expressions of findSuggestionMatch\<close>

definition allowedChars :: "jsstring \<Rightarrow> bool" where
  \<comment> \<open>\<^verbatim>\<open>allowedChars.test(s)\<close>: the class, starred, between \<^verbatim>\<open>^\<close> and \<^verbatim>\<open>$\<close> (no flags)\<close>
  "allowedChars s = list_all allowed_char s"

definition disallowedStartsWithChars :: "jsstring \<Rightarrow> bool" where
  \<comment> \<open>\<^verbatim>\<open>disallowedStartsWithChars.test(s)\<close>: a comma or \<^verbatim>\<open>\s\<close> at the start\<close>
  "disallowedStartsWithChars s =
     (case s of [] \<Rightarrow> False | c # _ \<Rightarrow> c = 0x2C \<or> is_space c)"

definition suffix :: "jsstring \<Rightarrow> bool" where
  \<comment> \<open>\<^verbatim>\<open>suffix.test(s)\<close>: somewhere in \<^verbatim>\<open>s\<close>, \<^verbatim>\<open>\s\<close> then the trigger then the end of the
      input, that is, these are the last two characters\<close>
  "suffix s =
     (case rev s of
        b # a # _ \<Rightarrow> is_space a \<and> b = char_trigger
      | _ \<Rightarrow> False)"

definition prefix_ok :: "jsstring \<Rightarrow> bool" where
  \<comment> \<open>the test of line 81: at most one character, which is \<^verbatim>\<open>\s\<close> or U+0000, between
      \<^verbatim>\<open>^\<close> and \<^verbatim>\<open>$\<close>\<close>
  "prefix_ok s =
     (case s of
        [] \<Rightarrow> True
      | [c] \<Rightarrow> is_space c \<or> c = 0
      | _ \<Rightarrow> False)"

definition lookahead :: "jsstring \<Rightarrow> bool" where
  \<comment> \<open>the lookahead of \<^verbatim>\<open>regexp\<close> on the rest of the input: \<^verbatim>\<open>\s\<close> then the trigger, or
      \<^verbatim>\<open>$\<close>, which under the \<^verbatim>\<open>m\<close> flag holds at the end of the input and before a line
      terminator\<close>
  "lookahead s =
     (case s of
        [] \<Rightarrow> True
      | a # r \<Rightarrow>
          (is_space a \<and> (case r of [] \<Rightarrow> False | b # _ \<Rightarrow> b = char_trigger))
          \<or> is_line_terminator a)"

fun lazy_dots :: "jsstring \<Rightarrow> nat option" where
  \<comment> \<open>the lazy \<^verbatim>\<open>.*?\<close> followed by the lookahead: the least number of characters, none of
      them a line terminator, after which the lookahead holds; \<open>None\<close> when there is none\<close>
  "lazy_dots [] = (if lookahead [] then Some 0 else None)"
| "lazy_dots (c # cs) =
     (if lookahead (c # cs) then Some 0
      else if is_line_terminator c then None
      else map_option Suc (lazy_dots cs))"

definition regexp_at :: "jsstring \<Rightarrow> nat option" where
  \<comment> \<open>\<^verbatim>\<open>regexp\<close> tried at the head of the rest of the input: the length of the match\<close>
  "regexp_at s =
     (case s of
        [] \<Rightarrow> None
      | c # cs \<Rightarrow> if c = char_trigger then map_option Suc (lazy_dots cs) else None)"

function matchAll_from :: "nat \<Rightarrow> jsstring \<Rightarrow> (nat \<times> jsstring) list" where
  \<comment> \<open>the matches of the global \<^verbatim>\<open>regexp\<close> from \<^verbatim>\<open>lastIndex = i\<close> on, each with its index
      and matched text; after a match \<^verbatim>\<open>lastIndex\<close> is its end (one further for an empty
      match)\<close>
  "matchAll_from i s =
     (if length s < i then []
      else (case regexp_at (drop i s) of
              None \<Rightarrow> matchAll_from (Suc i) s
            | Some n \<Rightarrow>
                (i, take n (drop i s))
                  # matchAll_from (if n = 0 then Suc i else i + n) s))"
  by pat_completeness auto
termination
  by (relation "measure (\<lambda>(i, s). Suc (length s) - i)") auto

declare matchAll_from.simps [simp del]

definition matchAll :: "jsstring \<Rightarrow> (nat \<times> jsstring) list" where
  \<comment> \<open>\<^verbatim>\<open>Array.from(text.matchAll(regexp))\<close>, the expression being fresh (\<^verbatim>\<open>lastIndex = 0\<close>)\<close>
  "matchAll s = matchAll_from 0 s"

definition pop :: "'a list \<Rightarrow> 'a option" where
  \<comment> \<open>the value of \<^verbatim>\<open>xs.pop()\<close>: the last element, \<^verbatim>\<open>undefined\<close> for the empty array\<close>
  "pop xs = (if xs = [] then None else Some (last xs))"

section \<open>Trigger Match Scanner\<close>

record range =
  rfrom :: nat
  rto :: nat

record SuggestionMatch =
  m_range :: range
  m_query :: jsstring
  m_text :: jsstring

text \<open>
  What \<^verbatim>\<open>findSuggestionMatch\<close> reads from its resolved position: the text the host's
  \<^verbatim>\<open>textBetween(textFrom, textTo, '\0', '\0')\<close> returns (from the start of the block, or of
  the document at top level, to the cursor, with U+0000 for leaves and block boundaries),
  \<^verbatim>\<open>$position.start()\<close> and \<^verbatim>\<open>$position.pos\<close>.
\<close>

record ResolvedPos =
  text_before :: jsstring
  start :: nat
  pos :: nat

definition findSuggestionMatch :: "ResolvedPos \<Rightarrow> SuggestionMatch option" where
  "findSuggestionMatch position =
     (let text = text_before position;
          match = pop (matchAll text);
          textAfter = (case js_split char_trigger text of
                         _ # t # _ \<Rightarrow> Some t
                       | _ \<Rightarrow> None);
          allowed = (allowedChars (js_to_string textAfter)
                     \<and> \<not> disallowedStartsWithChars (js_to_string textAfter))
      in case match of
           None \<Rightarrow> None
         | Some (index, match0) \<Rightarrow>
             if \<not> allowed then None
             else
               let matchPrefix = js_slice (max 0 (index - 1)) index text
               in if \<not> prefix_ok matchPrefix then None
                  else
                    let from = index + start position;
                        to = from + length match0;
                        edge = suffix (js_slice (to - 1) (to + 1) text);
                        match0' = (if edge then match0 @ js '' '' else match0);
                        to' = (if edge then to + 1 else to)
                    in if from < pos position \<and> pos position \<le> to'
                       then Some \<lparr> m_range = \<lparr> rfrom = from, rto = to' \<rparr>,
                                   m_query = drop 1 match0',
                                   m_text = match0' \<rparr>
                       else None)"

section \<open>Session state\<close>

text \<open>
  The plugin state of \<^verbatim>\<open>mention.ts\<close> refers to its range object, and \<^verbatim>\<open>command\<close> assigns
  to a field of that object. Range objects therefore live in a store, addressed by their
  index; \<open>None\<close> is the empty object \<^verbatim>\<open>{}\<close> of an inactive state, which has neither
  \<^verbatim>\<open>from\<close> nor \<^verbatim>\<open>to\<close>.
\<close>

type_synonym ref = nat
type_synonym heap = "range option list"

definition alloc :: "range option \<Rightarrow> heap \<Rightarrow> ref \<times> heap" where
  \<comment> \<open>a new object: an object literal of the source\<close>
  "alloc v h = (length h, h @ [v])"

definition deref :: "heap \<Rightarrow> ref \<Rightarrow> range option" where
  "deref h r = (if r < length h then h ! r else None)"

record PluginState =
  s_active :: bool
  s_range :: ref
  s_query :: "jsstring option"
  s_text :: "jsstring option"
  s_decorationId :: "jsstring option"

definition init :: "heap \<Rightarrow> PluginState \<times> heap" where
  "init h =
     (let (r, h') = alloc None h
      in (\<lparr> s_active = False, s_range = r, s_query = None, s_text = None,
             s_decorationId = None \<rparr>, h'))"

text \<open>
  What \<^verbatim>\<open>apply\<close> reads besides the previous state: the selection of the transaction
  (\<^verbatim>\<open>empty\<close> and \<^verbatim>\<open>$from\<close>), \<^verbatim>\<open>editor.view.composing\<close>, the option \<^verbatim>\<open>allow\<close> as it
  answers on the editor of that moment (\<open>None\<close> when the option is not set), and the
  integer \<^verbatim>\<open>Math.floor(Math.random() * 0xffffffff)\<close> it would draw.
\<close>

record Transaction =
  selection_empty :: bool
  selection_from :: ResolvedPos
  view_composing :: bool
  allow :: "(range \<Rightarrow> bool) option"
  random :: nat

fun decimal :: "nat \<Rightarrow> jsstring" where
  \<comment> \<open>a non-negative integer in a template literal: its decimal digits\<close>
  "decimal n =
     (if n < 10 then [0x30 + of_nat n]
      else decimal (n div 10) @ [0x30 + of_nat (n mod 10)])"

declare decimal.simps [simp del]

definition fresh_id :: "nat \<Rightarrow> jsstring" where
  \<comment> \<open>the template literal of line 257\<close>
  "fresh_id n = js ''id_'' @ decimal n"

text \<open>
  The result of \<^verbatim>\<open>apply\<close>: the state it returns, the store with the range object of that
  state added, and the positions \<^verbatim>\<open>findSuggestionMatch\<close> was called on, in order.
\<close>

record ApplyResult =
  next_state :: PluginState
  next_heap :: heap
  scanned :: "ResolvedPos list"

definition inactive_result :: "heap \<Rightarrow> ResolvedPos list \<Rightarrow> ApplyResult" where
  \<comment> \<open>the return of line 262\<close>
  "inactive_result h calls =
     (let (r, h') = alloc None h
      in \<lparr> next_state = \<lparr> s_active = False, s_range = r, s_query = None, s_text = None,
                           s_decorationId = None \<rparr>,
           next_heap = h', scanned = calls \<rparr>)"

definition apply_step :: "Transaction \<Rightarrow> PluginState \<Rightarrow> heap \<Rightarrow> ApplyResult" where
  \<comment> \<open>\<^verbatim>\<open>apply\<close> of the plugin state; a string is truthy when it is neither null nor empty\<close>
  "apply_step transaction prev h =
     (if selection_empty transaction \<or> view_composing transaction then
        (let calls = [selection_from transaction]
         in case findSuggestionMatch (selection_from transaction) of
              None \<Rightarrow> inactive_result h calls
            | Some match \<Rightarrow>
                if (case allow transaction of None \<Rightarrow> False | Some f \<Rightarrow> f (m_range match))
                then
                  (let (r, h') = alloc (Some (m_range match)) h
                   in \<lparr> next_state =
                          \<lparr> s_active = True, s_range = r,
                            s_query = Some (m_query match), s_text = Some (m_text match),
                            s_decorationId =
                              Some (case s_decorationId prev of
                                      None \<Rightarrow> fresh_id (random transaction)
                                    | Some d \<Rightarrow>
                                        if d \<noteq> [] then d else fresh_id (random transaction)) \<rparr>,
                        next_heap = h', scanned = calls \<rparr>)
                else inactive_result h calls)
      else inactive_result h [])"

section \<open>Lifecycle hooks\<close>

text \<open>
  The properties handed to a hook. \<^verbatim>\<open>range\<close> is the range object of \<^verbatim>\<open>state\<close> itself, not
  a copy; \<open>p_command\<close> is the \<^verbatim>\<open>state\<close> the closure \<^verbatim>\<open>command\<close> has captured. The fields
  \<^verbatim>\<open>editor\<close> and \<^verbatim>\<open>decorationId\<close> (a closure that reads the plugin state of the moment it is
  called) are the same for every call and are left out.
\<close>

record MentionProps =
  p_range :: ref
  p_query :: "jsstring option"
  p_text :: "jsstring option"
  p_command :: PluginState

text \<open>
  The hooks of \<^verbatim>\<open>options.render?.()\<close>, each of which may be missing, as transformers of
  whatever the user interface keeps (\<open>'u\<close>).
\<close>

record 'u Renderer =
  onStart :: "(MentionProps \<Rightarrow> 'u \<Rightarrow> 'u) option"
  onUpdate :: "(MentionProps \<Rightarrow> 'u \<Rightarrow> 'u) option"
  onExit :: "(MentionProps \<Rightarrow> 'u \<Rightarrow> 'u) option"

definition call_hook ::
  "'u Renderer option \<Rightarrow> ('u Renderer \<Rightarrow> (MentionProps \<Rightarrow> 'u \<Rightarrow> 'u) option)
     \<Rightarrow> MentionProps \<Rightarrow> 'u \<Rightarrow> 'u" where
  \<comment> \<open>\<^verbatim>\<open>renderer?.hook?.(props)\<close>\<close>
  "call_hook renderer hook props u =
     (case renderer of
        None \<Rightarrow> u
      | Some r \<Rightarrow> (case hook r of None \<Rightarrow> u | Some f \<Rightarrow> f props u))"

definition update ::
  "'u Renderer option \<Rightarrow> heap \<Rightarrow> PluginState \<Rightarrow> PluginState \<Rightarrow> 'u \<Rightarrow> 'u" where
  \<comment> \<open>\<^verbatim>\<open>update\<close> of the plugin view, on the store of that moment; \<^verbatim>\<open>{}.from\<close> is
      \<^verbatim>\<open>undefined\<close>\<close>
  "update renderer h prev next u =
     (let moved = (s_active prev \<and> s_active next
                   \<and> map_option rfrom (deref h (s_range prev))
                       \<noteq> map_option rfrom (deref h (s_range next)));
          started = (\<not> s_active prev \<and> s_active next);
          stopped = (s_active prev \<and> \<not> s_active next);
          changed = (\<not> started \<and> \<not> stopped \<and> s_query prev \<noteq> s_query next);
          handleStart = (started \<or> moved);
          handleChange = (changed \<and> \<not> moved);
          handleExit = (stopped \<or> moved)
      in if \<not> handleStart \<and> \<not> handleChange \<and> \<not> handleExit then u
         else
           let state = (if handleExit \<and> \<not> handleStart then prev else next);
               props = \<lparr> p_range = s_range state, p_query = s_query state,
                         p_text = s_text state, p_command = state \<rparr>;
               u1 = (if handleExit then call_hook renderer onExit props u else u);
               u2 = (if handleChange then call_hook renderer onUpdate props u1 else u1);
               u3 = (if handleStart then call_hook renderer onStart props u2 else u2)
           in u3)"

text \<open>A renderer that only writes down which hook was called, and with what.\<close>

datatype HookCall = Started MentionProps | Updated MentionProps | Exited MentionProps

definition recorder :: "HookCall list Renderer" where
  "recorder =
     \<lparr> onStart = Some (\<lambda>p log. log @ [Started p]),
       onUpdate = Some (\<lambda>p log. log @ [Updated p]),
       onExit = Some (\<lambda>p log. log @ [Exited p]) \<rparr>"

definition props_of :: "PluginState \<Rightarrow> MentionProps" where
  "props_of s =
     \<lparr> p_range = s_range s, p_query = s_query s, p_text = s_text s, p_command = s \<rparr>"

section \<open>Commit Dispatcher\<close>

text \<open>
  Modelled from the spec: the host's document and its splice, which are not part of
  \<^verbatim>\<open>mention.ts\<close>. A document is its sequence of tokens, a position is an index into it
  ("offsets into the document's flat text coordinate space"): the start and the end of a
  block, a character of a text node, a mention, or another leaf. The splice replaces the
  tokens of \<open>[from, to)\<close> by the given ones ("replace the span with two nodes in order").
\<close>

type_synonym attrs = "(jsstring \<times> jsstring) list"

datatype token = Open | Close | Chr jschar | MentionNode attrs | Leaf

fun text_run :: "token list \<Rightarrow> jsstring" where
  \<comment> \<open>the characters up to the end of the text node\<close>
  "text_run (Chr c # ts) = c # text_run ts"
| "text_run _ = []"

definition nodeAfter_text :: "token list \<Rightarrow> nat \<Rightarrow> jsstring option" where
  \<comment> \<open>Modelled from the spec: \<^verbatim>\<open>nodeAfter?.text\<close> of the position \<open>p\<close>, the rest of the text
      node the position points into or stands before; \<open>None\<close> when what follows is no text\<close>
  "nodeAfter_text d p = (case text_run (drop p d) of [] \<Rightarrow> None | t \<Rightarrow> Some t)"

definition insertContentAt :: "range \<Rightarrow> token list \<Rightarrow> token list \<Rightarrow> token list" where
  \<comment> \<open>Modelled from the spec: the host's splice\<close>
  "insertContentAt r content d = take (rfrom r) d @ content @ drop (rto r) d"

record Editor =
  doc :: "token list"
  selection_to :: nat
  focused :: bool

definition shouldOverrideSpace :: "Editor \<Rightarrow> bool" where
  \<comment> \<open>\<^verbatim>\<open>nodeAfter?.text?.startsWith(' ')\<close> at \<^verbatim>\<open>selection.$to\<close>; \<^verbatim>\<open>undefined\<close> is falsy\<close>
  "shouldOverrideSpace editor =
     (case nodeAfter_text (doc editor) (selection_to editor) of
        None \<Rightarrow> False
      | Some t \<Rightarrow> take 1 t = js '' '')"

definition extension :: "Editor \<Rightarrow> nat" where
  \<comment> \<open>by how much line 192 moves the end of the range\<close>
  "extension editor = (if shouldOverrideSpace editor then 1 else 0)"

definition command :: "attrs \<Rightarrow> PluginState \<Rightarrow> Editor \<Rightarrow> heap \<Rightarrow> (Editor \<times> heap) option" where
  \<comment> \<open>\<^verbatim>\<open>command\<close> of the properties built from \<open>state\<close>. The assignment of line 192 writes
      into the range object of \<open>state\<close>. On the empty object \<^verbatim>\<open>{}\<close> there is no range to
      hand to the host: \<open>None\<close>. Where the host leaves the selection is not modelled.\<close>
  "command mentionProps state editor h =
     (case deref h (s_range state) of
        None \<Rightarrow> None
      | Some r \<Rightarrow>
          let r' = (if shouldOverrideSpace editor then r\<lparr> rto := rto r + 1 \<rparr> else r);
              h' = h[s_range state := Some r']
          in Some (editor\<lparr> focused := True,
                           doc := insertContentAt r' [MentionNode mentionProps, Chr 0x20]
                                    (doc editor) \<rparr>,
                   h'))"

section \<open>Runs of the state machine\<close>

text \<open>The states the plugin can be in: the initial one, and what \<^verbatim>\<open>apply\<close> returns.\<close>

inductive reachable :: "PluginState \<Rightarrow> bool" where
  reachable_init: "reachable (fst (init h))"
| reachable_step: "reachable s \<Longrightarrow> reachable (next_state (apply_step t s h))"

fun run :: "Transaction list \<Rightarrow> PluginState \<Rightarrow> heap \<Rightarrow> ApplyResult list" where
  \<comment> \<open>what \<^verbatim>\<open>apply\<close> returns on each of a sequence of transactions, each on the state and
      the store the one before has left\<close>
  "run [] s h = []"
| "run (t # ts) s h =
     (let r = apply_step t s h
      in r # run ts (next_state r) (next_heap r))"

definition id_invariant :: "PluginState \<Rightarrow> bool" where
  \<comment> \<open>the identifier is there exactly in an active state, and is never the empty string\<close>
  "id_invariant s =
     ((s_decorationId s \<noteq> None) = s_active s \<and> s_decorationId s \<noteq> Some [])"

definition from_of :: "heap \<Rightarrow> PluginState \<Rightarrow> nat option" where
  \<comment> \<open>\<^verbatim>\<open>state.range.from\<close>, as \<^verbatim>\<open>update\<close> reads it\<close>
  "from_of h s = map_option rfrom (deref h (s_range s))"

fun is_space_token :: "token \<Rightarrow> bool" where
  "is_space_token (Chr c) = is_space c"
| "is_space_token _ = False"

definition spaces_after :: "token list \<Rightarrow> nat \<Rightarrow> nat" where
  \<comment> \<open>how many white space characters follow the token at index \<open>i\<close> directly\<close>
  "spaces_after d i = length (takeWhile is_space_token (drop (Suc i) d))"

definition space_at :: "token list \<Rightarrow> nat \<Rightarrow> bool" where
  \<comment> \<open>the token at position \<open>p\<close> is a white space character\<close>
  "space_at d p = (case drop p d of [] \<Rightarrow> False | t # _ \<Rightarrow> is_space_token t)"

subsection \<open>Example inputs\<close>

definition cursor_at :: "jsstring \<Rightarrow> Transaction" where
  \<comment> \<open>a collapsed cursor in a paragraph that starts at position 1, after the given text\<close>
  "cursor_at t =
     \<lparr> selection_empty = True,
       selection_from = \<lparr> text_before = t, start = 1, pos = 1 + length t \<rparr>,
       view_composing = False, allow = Some (\<lambda>_. True), random = 7 \<rparr>"

definition ranged_selection :: "jsstring \<Rightarrow> bool \<Rightarrow> Transaction" where
  \<comment> \<open>a selection that is not collapsed and starts after the given text, with or without a
      composition in progress\<close>
  "ranged_selection t composing =
     \<lparr> selection_empty = False,
       selection_from = \<lparr> text_before = t, start = 1, pos = 1 + length t \<rparr>,
       view_composing = composing, allow = Some (\<lambda>_. True), random = 7 \<rparr>"

definition from_start :: "Transaction list \<Rightarrow> ApplyResult list" where
  \<comment> \<open>a run from the initial state, on a store that holds nothing else\<close>
  "from_start ts = run ts (fst (init [])) (snd (init []))"

definition two_mentions :: "ApplyResult list" where
  \<comment> \<open>the cursor after \<^verbatim>\<open>@a\<close>, and then after \<^verbatim>\<open>@a @b\<close>\<close>
  "two_mentions = from_start [cursor_at (js ''@a''), cursor_at (js ''@a @b'')]"

definition typing_bo :: "ApplyResult list" where
  \<comment> \<open>the cursor after \<^verbatim>\<open>@b\<close>, then after \<^verbatim>\<open>@bo\<close>, then a selection that is not collapsed\<close>
  "typing_bo =
     from_start [cursor_at (js ''@b''), cursor_at (js ''@bo''),
                 ranged_selection (js ''@bo'') False]"

definition plain_paragraph :: "jsstring \<Rightarrow> token list" where
  \<comment> \<open>the tokens of a document that is one paragraph of plain text\<close>
  "plain_paragraph t = Open # map Chr t @ [Close]"

definition editor_with :: "jsstring \<Rightarrow> nat \<Rightarrow> Editor" where
  \<comment> \<open>an editor on a paragraph of plain text, the selection ending at the given position\<close>
  "editor_with t p = \<lparr> doc = plain_paragraph t, selection_to = p, focused = False \<rparr>"

definition mention_b :: "ApplyResult" where
  \<comment> \<open>the session of the cursor after \<^verbatim>\<open>@b\<close>: its range object is at address 1 and holds
      \<open>from = 1\<close>, \<open>to = 3\<close>\<close>
  "mention_b = apply_step (cursor_at (js ''@b'')) (fst (init [])) (snd (init []))"

definition bob_attrs :: attrs where
  "bob_attrs = [(js ''id'', js ''42''), (js ''value'', js ''bob'')]"

section \<open>Properties of the scanner\<close>

lemma regexp_at_no_trigger:
  "char_trigger \<notin> set s \<Longrightarrow> regexp_at (drop i s) = None"
proof -
  assume a: "char_trigger \<notin> set s"
  have "set (drop i s) \<subseteq> set s" by (rule set_drop_subset)
  with a have "char_trigger \<notin> set (drop i s)" by blast
  then show ?thesis by (cases "drop i s") (auto simp: regexp_at_def)
qed

lemma matchAll_from_no_trigger:
  "char_trigger \<notin> set s \<Longrightarrow> matchAll_from i s = []"
proof (induction i s rule: matchAll_from.induct)
  case (1 i s)
  show ?case
  proof (cases "length s < i")
    case True
    then show ?thesis by (simp add: matchAll_from.simps)
  next
    case False
    from "1.prems" have r: "regexp_at (drop i s) = None" by (rule regexp_at_no_trigger)
    from "1.IH"(1) [OF False r "1.prems"] have "matchAll_from (Suc i) s = []" .
    with False r show ?thesis by (subst matchAll_from.simps) simp
  qed
qed

lemma no_trigger_None:
  "char_trigger \<notin> set (text_before position) \<Longrightarrow> findSuggestionMatch position = None"
  by (simp add: findSuggestionMatch_def matchAll_def matchAll_from_no_trigger pop_def Let_def)

lemma lazy_dots_le: "lazy_dots s = Some n \<Longrightarrow> n \<le> length s"
  by (induction s arbitrary: n) (auto split: if_splits)

lemma regexp_at_Some:
  "regexp_at s = Some n \<Longrightarrow> 0 < n \<and> n \<le> length s \<and> (\<exists>t. s = char_trigger # t)"
  by (cases s) (auto simp: regexp_at_def split: if_splits dest: lazy_dots_le)

lemma matchAll_from_props:
  "(j, m) \<in> set (matchAll_from i s) \<Longrightarrow>
     j < length s \<and> s ! j = char_trigger \<and> j + length m \<le> length s
     \<and> (\<exists>t. m = char_trigger # t)"
proof (induction i s rule: matchAll_from.induct)
  case (1 i s)
  show ?case
  proof (cases "length s < i")
    case True
    with "1.prems" show ?thesis by (simp add: matchAll_from.simps)
  next
    case False
    show ?thesis
    proof (cases "regexp_at (drop i s)")
      case None
      with False "1.prems" have "(j, m) \<in> set (matchAll_from (Suc i) s)"
        by (subst (asm) matchAll_from.simps) simp
      from "1.IH"(1) [OF False None this] show ?thesis .
    next
      case (Some n)
      from regexp_at_Some [OF Some] obtain t where
        n: "0 < n" "n \<le> length (drop i s)" and t: "drop i s = char_trigger # t" by blast
      from False "1.prems" Some have
        "(j, m) = (i, take n (drop i s))
         \<or> (j, m) \<in> set (matchAll_from (if n = 0 then Suc i else i + n) s)"
        by (subst (asm) matchAll_from.simps) simp
      then show ?thesis
      proof
        assume e: "(j, m) = (i, take n (drop i s))"
        from t have il: "i < length s" by (cases "i < length s") auto
        from t il have "s ! i = char_trigger"
          by (metis nth_via_drop)
        moreover from n t obtain k where "n = Suc k" by (cases n) auto
        with t have "take n (drop i s) = char_trigger # take k t" by simp
        moreover from n have "length (take n (drop i s)) = n" by simp
        moreover from n have "i + n \<le> length s" using il by simp
        ultimately show ?thesis using e il by auto
      next
        assume "(j, m) \<in> set (matchAll_from (if n = 0 then Suc i else i + n) s)"
        from "1.IH"(2) [OF False Some this] show ?thesis .
      qed
    qed
  qed
qed

lemma pop_matchAll_props:
  assumes "pop (matchAll s) = Some (j, m)"
  shows "j < length s \<and> s ! j = char_trigger \<and> j + length m \<le> length s
     \<and> (\<exists>t. m = char_trigger # t)"
proof -
  from assms have "(j, m) \<in> set (matchAll_from 0 s)"
    by (auto simp: pop_def matchAll_def split: if_splits dest: last_in_set)
  then show ?thesis by (rule matchAll_from_props)
qed


lemma embedded_trigger_rejected:
  assumes p: "pop (matchAll (text_before position)) = Some (index, m)"
    and i: "0 < index"
    and c: "\<not> is_space (text_before position ! (index - 1))"
           "text_before position ! (index - 1) \<noteq> 0"
  shows "findSuggestionMatch position = None"
proof -
  from pop_matchAll_props [OF p] have l: "index < length (text_before position)" by blast
  with i have "js_slice (max 0 (index - 1)) index (text_before position)
                 = [text_before position ! (index - 1)]"
    by (cases index) (simp_all add: js_slice_def take_Suc_conv_app_nth Cons_nth_drop_Suc [symmetric])
  with c have "\<not> prefix_ok (js_slice (max 0 (index - 1)) index (text_before position))"
    by (simp add: prefix_ok_def)
  with p show ?thesis
    by (simp add: findSuggestionMatch_def Let_def)
qed

lemma x_at_bob_cases:
  "pop (matchAll (take 2 (js ''x@bob''))) = Some (1, js ''@'')"
  "pop (matchAll (take 3 (js ''x@bob''))) = Some (1, js ''@b'')"
  "pop (matchAll (take 4 (js ''x@bob''))) = Some (1, js ''@bo'')"
  "pop (matchAll (js ''x@bob'')) = Some (1, js ''@bob'')"
  "js ''x@bob'' ! 0 = 0x78"
  "take 2 (js ''x@bob'') ! 0 = 0x78"
  "take 3 (js ''x@bob'') ! 0 = 0x78"
  "take 4 (js ''x@bob'') ! 0 = 0x78"
  "char_trigger \<notin> set (take 0 (js ''x@bob''))"
  "char_trigger \<notin> set (take 1 (js ''x@bob''))"
  "\<not> is_space 0x78"
  by code_simp+

lemma x_at_bob_rejected:
  "findSuggestionMatch \<lparr> text_before = take k (js ''x@bob''), start = st, pos = ps \<rparr> = None"
proof -
  consider "k = 0" | "k = 1" | "k = 2" | "k = 3" | "k = 4" | "5 \<le> k" by linarith
  then show ?thesis
  proof cases
    case 1
    then show ?thesis
      by (simp add: findSuggestionMatch_def matchAll_def matchAll_from_no_trigger pop_def Let_def)
  next
    case 2
    then show ?thesis using x_at_bob_cases(10)
      by (simp add: findSuggestionMatch_def matchAll_def matchAll_from_no_trigger pop_def Let_def)
  next
    case 3
    show ?thesis unfolding 3
      by (rule embedded_trigger_rejected [where index = 1 and m = "js ''@''"])
         (simp_all add: x_at_bob_cases)
  next
    case 4
    show ?thesis unfolding 4
      by (rule embedded_trigger_rejected [where index = 1 and m = "js ''@b''"])
         (simp_all add: x_at_bob_cases)
  next
    case 5
    show ?thesis unfolding 5
      by (rule embedded_trigger_rejected [where index = 1 and m = "js ''@bo''"])
         (simp_all add: x_at_bob_cases)
  next
    case 6
    then have "take k (js ''x@bob'') = js ''x@bob''" by (simp add: js_def)
    then show ?thesis
      using embedded_trigger_rejected [where index = 1 and m = "js ''@bob''"
          and position = "\<lparr> text_before = js ''x@bob'', start = st, pos = ps \<rparr>"]
      by (simp add: x_at_bob_cases)
  qed
qed


text \<open>
  Claim C8. Let the candidate span be the last match of \<^verbatim>\<open>regexp\<close> in the text before the
  cursor. If it does not start at index 0 and the character before it is neither \<^verbatim>\<open>\s\<close> nor
  the placeholder U+0000, the scanner returns no match, whatever the position. In
  particular, for the text \<^verbatim>\<open>x@bob\<close> and every cursor in it (the text before the cursor is
  a prefix of it) the scanner returns no match.
\<close>

theorem scanner_rejects_embedded_trigger:
  "(pop (matchAll (text_before position)) = Some (index, m) \<and> 0 < index
      \<and> \<not> is_space (text_before position ! (index - 1))
      \<and> text_before position ! (index - 1) \<noteq> 0
      \<longrightarrow> findSuggestionMatch position = None)
   \<and> findSuggestionMatch \<lparr> text_before = take k (js ''x@bob''), start = st, pos = ps \<rparr> = None"
  using embedded_trigger_rejected [of position index m] x_at_bob_rejected [of k st ps]
  by blast


theorem scanner_rejects_embedded_trigger_witness:
  "pop (matchAll (js ''say x@bob'')) = Some (5, js ''@bob'') \<and> (0::nat) < 5
   \<and> \<not> is_space (js ''say x@bob'' ! (5 - 1)) \<and> js ''say x@bob'' ! (5 - 1) \<noteq> 0
   \<and> findSuggestionMatch \<lparr> text_before = js ''say x@bob'', start = 1, pos = 10 \<rparr> = None"
proof -
  have h: "pop (matchAll (js ''say x@bob'')) = Some (5, js ''@bob'')"
    "\<not> is_space (js ''say x@bob'' ! (5 - 1))" "js ''say x@bob'' ! (5 - 1) \<noteq> 0"
    by code_simp+
  with scanner_rejects_embedded_trigger
         [of "\<lparr> text_before = js ''say x@bob'', start = 1, pos = 10 \<rparr>" 5 "js ''@bob''"]
  show ?thesis by simp
qed


text \<open>
  Claim C9. If the text before the cursor holds no trigger character, the scanner returns
  no match, whatever the position.
\<close>

theorem scanner_no_trigger_no_match:
  "char_trigger \<notin> set (text_before position) \<Longrightarrow> findSuggestionMatch position = None"
  by (rule no_trigger_None)

theorem scanner_no_trigger_no_match_witness:
  "char_trigger \<notin> set (js ''hello bob'')
   \<and> findSuggestionMatch \<lparr> text_before = js ''hello bob'', start = 1, pos = 6 \<rparr> = None"
proof -
  have h: "char_trigger \<notin> set (js ''hello bob'')" by code_simp
  with scanner_no_trigger_no_match
         [of "\<lparr> text_before = js ''hello bob'', start = 1, pos = 6 \<rparr>"]
  show ?thesis by simp
qed


text \<open>
  Claim C10. Whenever the scanner returns a match, its text is the trigger character
  followed by its query, and the range is as long as the text: \<open>to = from + length text\<close>,
  hence \<open>to - from = length text\<close> and \<open>from \<le> to\<close>.
\<close>

theorem scanner_match_shape:
  assumes "findSuggestionMatch position = Some r"
  shows "m_text r = char_trigger # m_query r
         \<and> rto (m_range r) = rfrom (m_range r) + length (m_text r)
         \<and> rto (m_range r) - rfrom (m_range r) = length (m_text r)
         \<and> rfrom (m_range r) \<le> rto (m_range r)"
proof -
  from assms obtain j m where p: "pop (matchAll (text_before position)) = Some (j, m)"
    by (cases "pop (matchAll (text_before position))")
       (auto simp: findSuggestionMatch_def Let_def)
  from pop_matchAll_props [OF p] obtain t where t: "m = char_trigger # t" by blast
  from assms p t show ?thesis
    by (auto simp: findSuggestionMatch_def Let_def js_def split: if_splits)
qed

theorem scanner_match_shape_witness:
  "findSuggestionMatch \<lparr> text_before = js ''hello @bob'', start = 1, pos = 11 \<rparr>
     = Some \<lparr> m_range = \<lparr> rfrom = 7, rto = 11 \<rparr>, m_query = js ''bob'', m_text = js ''@bob'' \<rparr>
   \<and> js ''@bob'' = char_trigger # js ''bob'' \<and> (11::nat) = 7 + length (js ''@bob'')
   \<and> (11::nat) - 7 = length (js ''@bob'')
   \<and> (7::nat) \<le> 11"
proof -
  have h: "findSuggestionMatch \<lparr> text_before = js ''hello @bob'', start = 1, pos = 11 \<rparr>
     = Some \<lparr> m_range = \<lparr> rfrom = 7, rto = 11 \<rparr>, m_query = js ''bob'', m_text = js ''@bob'' \<rparr>"
    by code_simp
  from scanner_match_shape [OF h] h show ?thesis by (simp add: js_def)
qed

lemma inactive_result_simps:
  "s_active (next_state (inactive_result h c)) = False"
  "s_decorationId (next_state (inactive_result h c)) = None"
  "s_query (next_state (inactive_result h c)) = None"
  "s_text (next_state (inactive_result h c)) = None"
  "s_range (next_state (inactive_result h c)) = length h"
  "next_heap (inactive_result h c) = h @ [None]"
  "scanned (inactive_result h c) = c"
  by (simp_all add: inactive_result_def alloc_def)

lemma init_simps:
  "fst (init h) = \<lparr> s_active = False, s_range = length h, s_query = None, s_text = None,
                     s_decorationId = None \<rparr>"
  "snd (init h) = h @ [None]"
  by (simp_all add: init_def alloc_def)

lemma apply_step_cases:
  obtains (off) "\<not> selection_empty t" "\<not> view_composing t"
      "apply_step t prev h = inactive_result h []"
  | (nomatch) "selection_empty t \<or> view_composing t"
      "findSuggestionMatch (selection_from t) = None \<or>
       (\<exists>m. findSuggestionMatch (selection_from t) = Some m \<and>
            \<not> (case allow t of None \<Rightarrow> False | Some f \<Rightarrow> f (m_range m)))"
      "apply_step t prev h = inactive_result h [selection_from t]"
  | (on) m f where "selection_empty t \<or> view_composing t"
      "findSuggestionMatch (selection_from t) = Some m" "allow t = Some f" "f (m_range m)"
      "apply_step t prev h =
         \<lparr> next_state =
             \<lparr> s_active = True, s_range = length h,
               s_query = Some (m_query m), s_text = Some (m_text m),
               s_decorationId =
                 Some (case s_decorationId prev of
                         None \<Rightarrow> fresh_id (random t)
                       | Some d \<Rightarrow> if d \<noteq> [] then d else fresh_id (random t)) \<rparr>,
           next_heap = h @ [Some (m_range m)], scanned = [selection_from t] \<rparr>"
proof (cases "selection_empty t \<or> view_composing t")
  case False
  then show ?thesis using off by (simp add: apply_step_def)
next
  case g: True
  show ?thesis
  proof (cases "findSuggestionMatch (selection_from t)")
    case None
    with g show ?thesis using nomatch by (simp add: apply_step_def)
  next
    case (Some m)
    show ?thesis
    proof (cases "allow t")
      case None
      with g Some show ?thesis using nomatch by (simp add: apply_step_def)
    next
      case f: (Some f)
      show ?thesis
      proof (cases "f (m_range m)")
        case True
        with g Some f show ?thesis using on [of m f]
          by (simp add: apply_step_def alloc_def)
      next
        case False
        with g Some f show ?thesis using nomatch by (simp add: apply_step_def)
      qed
    qed
  qed
qed

text \<open>
  Claim C4. In the initial plugin state and in every state \<^verbatim>\<open>apply\<close> returns, from whatever
  previous state, \<^verbatim>\<open>decorationId\<close> is not null if and only if \<^verbatim>\<open>active\<close> is true.
\<close>

theorem decorationId_iff_active:
  "(s_decorationId (fst (init h)) \<noteq> None) = s_active (fst (init h))
   \<and> (s_decorationId (next_state (apply_step t prev h0)) \<noteq> None)
       = s_active (next_state (apply_step t prev h0))"
proof -
  have "(s_decorationId (next_state (apply_step t prev h0)) \<noteq> None)
       = s_active (next_state (apply_step t prev h0))"
    by (cases t prev h0 rule: apply_step_cases) (simp_all add: inactive_result_simps)
  then show ?thesis by (simp add: init_simps)
qed

lemma match_encloses_cursor:
  "findSuggestionMatch p = Some m \<Longrightarrow> rfrom (m_range m) < pos p \<and> pos p \<le> rto (m_range m)"
  by (auto simp: findSuggestionMatch_def Let_def split: option.splits if_splits prod.splits)

text \<open>
  Claim C6, as amended. A state \<^verbatim>\<open>apply\<close> returns is active only when the selection is
  collapsed or a composition is in progress, and the scanner, called on the start of the
  selection, returns a match the option \<^verbatim>\<open>allow\<close> accepts; that position then lies strictly
  after the start of the match and at or before its end, and the range of the state is the
  range of the match. When the selection is not collapsed and no composition is in
  progress, the state is inactive and the scanner is not called; otherwise it is called
  once, on the start of the selection.
\<close>

theorem active_only_inside_match:
  "(s_active (next_state (apply_step t prev h)) \<longrightarrow>
      (selection_empty t \<or> view_composing t)
      \<and> (\<exists>m f. findSuggestionMatch (selection_from t) = Some m
             \<and> allow t = Some f \<and> f (m_range m)
             \<and> rfrom (m_range m) < pos (selection_from t)
             \<and> pos (selection_from t) \<le> rto (m_range m)
             \<and> deref (next_heap (apply_step t prev h))
                      (s_range (next_state (apply_step t prev h))) = Some (m_range m)))
   \<and> (\<not> selection_empty t \<and> \<not> view_composing t \<longrightarrow>
        \<not> s_active (next_state (apply_step t prev h)) \<and> scanned (apply_step t prev h) = [])
   \<and> (selection_empty t \<or> view_composing t \<longrightarrow>
        scanned (apply_step t prev h) = [selection_from t])"
proof (cases t prev h rule: apply_step_cases)
  case off
  then show ?thesis by (simp add: inactive_result_simps)
next
  case nomatch
  then show ?thesis by (simp add: inactive_result_simps)
next
  case (on m f)
  from match_encloses_cursor [OF on(2)] on show ?thesis
    by (simp add: deref_def)
qed

theorem active_only_inside_match_witness:
  "s_active (next_state (apply_step (cursor_at (js ''hi @bo'')) (fst (init [])) (snd (init []))))
   \<and> selection_empty (cursor_at (js ''hi @bo''))
   \<and> findSuggestionMatch (selection_from (cursor_at (js ''hi @bo'')))
       = Some \<lparr> m_range = \<lparr> rfrom = 4, rto = 7 \<rparr>, m_query = js ''bo'', m_text = js ''@bo'' \<rparr>
   \<and> pos (selection_from (cursor_at (js ''hi @bo''))) = 7
   \<and> \<not> s_active (next_state (apply_step (ranged_selection (js ''hi @bo'') False)
                                 (fst (init [])) (snd (init []))))
   \<and> scanned (apply_step (ranged_selection (js ''hi @bo'') False)
                                 (fst (init [])) (snd (init []))) = []"
proof -
  have a: "s_active (next_state (apply_step (cursor_at (js ''hi @bo'')) (fst (init [])) (snd (init []))))"
    by code_simp
  have b: "\<not> selection_empty (ranged_selection (js ''hi @bo'') False)
           \<and> \<not> view_composing (ranged_selection (js ''hi @bo'') False)"
    by (simp add: ranged_selection_def)
  have c: "findSuggestionMatch (selection_from (cursor_at (js ''hi @bo'')))
       = Some \<lparr> m_range = \<lparr> rfrom = 4, rto = 7 \<rparr>, m_query = js ''bo'', m_text = js ''@bo'' \<rparr>"
    "pos (selection_from (cursor_at (js ''hi @bo''))) = 7"
    by code_simp+
  from a b c
    active_only_inside_match [of "cursor_at (js ''hi @bo'')" "fst (init [])" "snd (init [])"]
    active_only_inside_match [of "ranged_selection (js ''hi @bo'') False" "fst (init [])" "snd (init [])"]
  show ?thesis by (simp add: cursor_at_def)
qed

text \<open>
  The claim as stated fails: with a composition in progress, a selection that is not
  collapsed gives an active state.
\<close>

theorem active_with_ranged_selection:
  "\<not> selection_empty (ranged_selection (js ''hi @bo'') True)
   \<and> s_active (next_state (apply_step (ranged_selection (js ''hi @bo'') True)
                              (fst (init [])) (snd (init []))))"
  by code_simp

lemma digit_inj:
  assumes "a < 10" "b < 10" "(0x30 + of_nat a :: jschar) = 0x30 + of_nat b"
  shows "a = b"
proof -
  from assms(3) have "(of_nat a :: jschar) = of_nat b" by simp
  then have "take_bit LENGTH(16) a = take_bit LENGTH(16) b"
    by (simp only: word_of_nat_eq_iff)
  moreover from assms have "a < 2 ^ LENGTH(16)" "b < 2 ^ LENGTH(16)" by simp_all
  ultimately show ?thesis by (simp add: take_bit_nat_eq_self)
qed

lemma decimal_not_Nil: "decimal n \<noteq> []"
  by (subst decimal.simps) simp

lemma decimal_last: "last (decimal n) = 0x30 + of_nat (n mod 10)"
  by (subst decimal.simps) (simp add: decimal_not_Nil)

lemma decimal_butlast: "butlast (decimal n) = (if n < 10 then [] else decimal (n div 10))"
  by (subst decimal.simps) (simp add: decimal_not_Nil)

lemma decimal_inj: "decimal a = decimal b \<Longrightarrow> a = b"
proof (induction a arbitrary: b rule: decimal.induct)
  case (1 n)
  from "1.prems" have l: "last (decimal n) = last (decimal b)"
    and bl: "butlast (decimal n) = butlast (decimal b)" by simp_all
  from l have "(0x30 + of_nat (n mod 10) :: jschar) = 0x30 + of_nat (b mod 10)"
    by (simp only: decimal_last)
  then have m: "n mod 10 = b mod 10" by (intro digit_inj) simp_all
  show ?case
  proof (cases "n < 10")
    case True
    with bl have "b < 10"
      using decimal_not_Nil [of "b div 10"] by (auto simp: decimal_butlast split: if_splits)
    with True m show ?thesis by simp
  next
    case False
    with bl have b: "\<not> b < 10" and e: "decimal (n div 10) = decimal (b div 10)"
      using decimal_not_Nil [of "n div 10"] by (auto simp: decimal_butlast split: if_splits)
    from "1.IH" [OF False e] have "n div 10 = b div 10" .
    with m show ?thesis by (metis div_mult_mod_eq)
  qed
qed

lemma fresh_id_inj: "(fresh_id a = fresh_id b) = (a = b)"
  by (auto simp: fresh_id_def dest: decimal_inj)

lemma fresh_id_not_Nil: "fresh_id n \<noteq> []"
  by (simp add: fresh_id_def decimal_not_Nil)

lemma apply_step_id_invariant: "id_invariant (next_state (apply_step t prev h))"
  by (cases t prev h rule: apply_step_cases)
     (auto simp: inactive_result_simps id_invariant_def fresh_id_not_Nil split: option.splits)

lemma reachable_id_invariant: "reachable s \<Longrightarrow> id_invariant s"
  by (induction rule: reachable.induct)
     (simp_all add: apply_step_id_invariant, simp add: id_invariant_def init_simps)

lemma id_of_started:
  assumes "id_invariant prev" "\<not> s_active prev" "s_active (next_state (apply_step t prev h))"
  shows "s_decorationId (next_state (apply_step t prev h)) = Some (fresh_id (random t))"
  using assms
  by (cases t prev h rule: apply_step_cases)
     (auto simp: inactive_result_simps id_invariant_def)

lemma id_of_continued:
  assumes "id_invariant prev" "s_active prev" "s_active (next_state (apply_step t prev h))"
  shows "s_decorationId (next_state (apply_step t prev h)) = s_decorationId prev"
  using assms
  by (cases t prev h rule: apply_step_cases)
     (auto simp: inactive_result_simps id_invariant_def)

lemma id_of_stopped:
  assumes "\<not> s_active (next_state (apply_step t prev h))"
  shows "s_decorationId (next_state (apply_step t prev h)) = None"
  using assms
  by (cases t prev h rule: apply_step_cases) (auto simp: inactive_result_simps)

lemma id_constant_in_run:
  assumes "id_invariant s" "s_active s" "\<forall>x \<in> set (run ts s h). s_active (next_state x)"
  shows "\<forall>x \<in> set (run ts s h). s_decorationId (next_state x) = s_decorationId s"
  using assms
proof (induction ts arbitrary: s h)
  case Nil
  then show ?case by simp
next
  case (Cons t ts)
  let ?r = "apply_step t s h"
  from Cons.prems(3) have a: "s_active (next_state ?r)"
    and rest: "\<forall>x \<in> set (run ts (next_state ?r) (next_heap ?r)). s_active (next_state x)"
    by (simp_all add: Let_def)
  from id_of_continued [OF Cons.prems(1,2) a]
  have e: "s_decorationId (next_state ?r) = s_decorationId s" .
  from Cons.IH [OF apply_step_id_invariant a rest] e
  show ?case by (simp add: Let_def)
qed

text \<open>
  Claim C5, as amended. From a reachable state: a transition from inactive to active sets
  \<^verbatim>\<open>decorationId\<close> to the identifier made from the number drawn in that transaction; a
  transition from active to active keeps the previous identifier; a transition to inactive
  sets it to null; so through any run of transactions that stays active the identifier is
  the one the run began with. Two sessions, each begun from an inactive reachable state,
  have the same identifier exactly when the same number is drawn at their starts; the
  query text plays no part.
\<close>

theorem decorationId_lifecycle:
  "(reachable prev \<and> \<not> s_active prev \<and> s_active (next_state (apply_step t prev h)) \<longrightarrow>
      s_decorationId (next_state (apply_step t prev h)) = Some (fresh_id (random t)))
   \<and> (reachable prev \<and> s_active prev \<and> s_active (next_state (apply_step t prev h)) \<longrightarrow>
      s_decorationId (next_state (apply_step t prev h)) = s_decorationId prev)
   \<and> (\<not> s_active (next_state (apply_step t prev h)) \<longrightarrow>
      s_decorationId (next_state (apply_step t prev h)) = None)
   \<and> (reachable prev \<and> s_active prev \<and> (\<forall>x \<in> set (run ts prev h). s_active (next_state x)) \<longrightarrow>
      (\<forall>x \<in> set (run ts prev h). s_decorationId (next_state x) = s_decorationId prev))
   \<and> (reachable a \<and> \<not> s_active a \<and> s_active (next_state (apply_step ta a ha))
      \<and> reachable b \<and> \<not> s_active b \<and> s_active (next_state (apply_step tb b hb)) \<longrightarrow>
      (s_decorationId (next_state (apply_step ta a ha))
         = s_decorationId (next_state (apply_step tb b hb))) = (random ta = random tb))"
proof (intro conjI impI)
  assume "reachable prev \<and> \<not> s_active prev \<and> s_active (next_state (apply_step t prev h))"
  then show "s_decorationId (next_state (apply_step t prev h)) = Some (fresh_id (random t))"
    by (simp add: id_of_started reachable_id_invariant)
next
  assume "reachable prev \<and> s_active prev \<and> s_active (next_state (apply_step t prev h))"
  then show "s_decorationId (next_state (apply_step t prev h)) = s_decorationId prev"
    by (simp add: id_of_continued reachable_id_invariant)
next
  assume "\<not> s_active (next_state (apply_step t prev h))"
  then show "s_decorationId (next_state (apply_step t prev h)) = None"
    by (rule id_of_stopped)
next
  assume "reachable prev \<and> s_active prev
          \<and> (\<forall>x \<in> set (run ts prev h). s_active (next_state x))"
  then show "\<forall>x \<in> set (run ts prev h). s_decorationId (next_state x) = s_decorationId prev"
    by (intro id_constant_in_run) (simp_all add: reachable_id_invariant)
next
  assume "reachable a \<and> \<not> s_active a \<and> s_active (next_state (apply_step ta a ha))
      \<and> reachable b \<and> \<not> s_active b \<and> s_active (next_state (apply_step tb b hb))"
  then show "(s_decorationId (next_state (apply_step ta a ha))
         = s_decorationId (next_state (apply_step tb b hb))) = (random ta = random tb)"
    by (simp add: id_of_started reachable_id_invariant fresh_id_inj)
qed

text \<open>
  The claim as stated fails: on the run active, inactive, active, with the same number
  drawn both times, the two sessions (of the same query \<^verbatim>\<open>b\<close>) have the same identifier.
\<close>

theorem same_draw_same_id:
  "map (s_active \<circ> next_state)
       (from_start [cursor_at (js ''@b''), ranged_selection (js ''@b'') False,
                    cursor_at (js ''@b'')]) = [True, False, True]
   \<and> map (s_decorationId \<circ> next_state)
       (from_start [cursor_at (js ''@b''), ranged_selection (js ''@b'') False,
                    cursor_at (js ''@b'')]) = [Some (js ''id_7''), None, Some (js ''id_7'')]
   \<and> map (s_query \<circ> next_state)
       (from_start [cursor_at (js ''@b''), ranged_selection (js ''@b'') False,
                    cursor_at (js ''@b'')]) = [Some (js ''b''), None, Some (js ''b'')]"
  by code_simp

theorem decorationId_lifecycle_witness:
  "s_decorationId (next_state (apply_step (cursor_at (js ''@b'')) (fst (init [])) (snd (init []))))
     = Some (fresh_id 7)
   \<and> s_decorationId (next_state (apply_step (cursor_at (js ''@bo''))
        (next_state (apply_step (cursor_at (js ''@b'')) (fst (init [])) (snd (init [])))) []))
     = Some (fresh_id 7)
   \<and> s_decorationId (next_state (apply_step (ranged_selection (js ''@b'') False)
        (fst (init [])) [])) = None
   \<and> map (s_decorationId \<circ> next_state)
        (run [cursor_at (js ''@bo''), cursor_at (js ''@bob'')]
          (next_state (apply_step (cursor_at (js ''@b'')) (fst (init [])) (snd (init [])))) [])
       = [Some (fresh_id 7), Some (fresh_id 7)]
   \<and> s_decorationId (next_state (apply_step (cursor_at (js ''@b'')) (fst (init [])) []))
       \<noteq> s_decorationId (next_state (apply_step ((cursor_at (js ''@b'')) \<lparr> random := 8 \<rparr>)
                                          (fst (init [])) []))"
proof -
  let ?s0 = "fst (init [])"
  let ?s1 = "next_state (apply_step (cursor_at (js ''@b'')) ?s0 (snd (init [])))"
  let ?t8 = "(cursor_at (js ''@b'')) \<lparr> random := 8 \<rparr>"
  have r0: "reachable ?s0" by (rule reachable_init)
  have r1: "reachable ?s1" by (rule reachable_step) (rule reachable_init)
  have a0: "\<not> s_active ?s0" by (simp add: init_def alloc_def)
  have a1: "s_active ?s1" by code_simp
  have a2: "s_active (next_state (apply_step (cursor_at (js ''@bo'')) ?s1 []))" by code_simp
  have a3: "\<not> s_active (next_state (apply_step (ranged_selection (js ''@b'') False) ?s0 []))"
    by code_simp
  have a4: "\<forall>x \<in> set (run [cursor_at (js ''@bo''), cursor_at (js ''@bob'')] ?s1 []).
              s_active (next_state x)" by code_simp
  have a5: "s_active (next_state (apply_step (cursor_at (js ''@b'')) ?s0 []))"
    "s_active (next_state (apply_step ?t8 ?s0 []))" by code_simp+
  have d1: "s_decorationId ?s1 = Some (fresh_id 7)"
    using decorationId_lifecycle [of ?s0 "cursor_at (js ''@b'')" "snd (init [])"] r0 a0 a1
    by (simp add: cursor_at_def)
  have d2: "s_decorationId (next_state (apply_step (cursor_at (js ''@bo'')) ?s1 []))
              = s_decorationId ?s1"
    using decorationId_lifecycle [of ?s1 "cursor_at (js ''@bo'')" "[]"] r1 a1 a2 by simp
  have d3: "s_decorationId (next_state (apply_step (ranged_selection (js ''@b'') False) ?s0 []))
              = None"
    using decorationId_lifecycle [of ?s0 "ranged_selection (js ''@b'') False" "[]"] a3 by simp
  have d4: "\<forall>x \<in> set (run [cursor_at (js ''@bo''), cursor_at (js ''@bob'')] ?s1 []).
              s_decorationId (next_state x) = s_decorationId ?s1"
    using decorationId_lifecycle
            [of ?s1 _ "[]" "[cursor_at (js ''@bo''), cursor_at (js ''@bob'')]"] r1 a1 a4
    by blast
  have "(s_decorationId (next_state (apply_step (cursor_at (js ''@b'')) ?s0 []))
          = s_decorationId (next_state (apply_step ?t8 ?s0 [])))
        = (random (cursor_at (js ''@b'')) = random ?t8)"
    using decorationId_lifecycle
            [of ?s0 ?t8 "[]" "[]" ?s0 "cursor_at (js ''@b'')" "[]" ?s0 ?t8 "[]"] r0 a0 a5
    by blast
  moreover have "random (cursor_at (js ''@b'')) \<noteq> random ?t8"
    by (simp add: cursor_at_def)
  ultimately have d5: "s_decorationId (next_state (apply_step (cursor_at (js ''@b'')) ?s0 []))
       \<noteq> s_decorationId (next_state (apply_step ?t8 ?s0 []))"
    by blast
  have "map (s_decorationId \<circ> next_state)
          (run [cursor_at (js ''@bo''), cursor_at (js ''@bob'')] ?s1 [])
        = map (\<lambda>_. s_decorationId ?s1)
            (run [cursor_at (js ''@bo''), cursor_at (js ''@bob'')] ?s1 [])"
    using d4 by (simp only: map_eq_conv comp_apply)
  also have "\<dots> = [s_decorationId ?s1, s_decorationId ?s1]"
    by (simp add: Let_def)
  finally have d6: "map (s_decorationId \<circ> next_state)
          (run [cursor_at (js ''@bo''), cursor_at (js ''@bob'')] ?s1 [])
        = [Some (fresh_id 7), Some (fresh_id 7)]"
    using d1 by simp
  from d1 d2 d3 d5 d6 show ?thesis by simp
qed

lemma recorder_calls:
  "call_hook (Some recorder) onStart p log = log @ [Started p]"
  "call_hook (Some recorder) onUpdate p log = log @ [Updated p]"
  "call_hook (Some recorder) onExit p log = log @ [Exited p]"
  by (simp_all add: call_hook_def recorder_def)

lemma update_moved:
  assumes "s_active prev" "s_active next" "from_of h prev \<noteq> from_of h next"
  shows "update r h prev next u
           = call_hook r onStart (props_of next) (call_hook r onExit (props_of next) u)"
  using assms by (simp add: update_def from_of_def props_of_def Let_def)

lemma update_started:
  assumes "\<not> s_active prev" "s_active next"
  shows "update r h prev next u = call_hook r onStart (props_of next) u"
  using assms by (simp add: update_def props_of_def Let_def)

lemma update_changed:
  assumes "s_active prev" "s_active next" "from_of h prev = from_of h next"
    "s_query prev \<noteq> s_query next"
  shows "update r h prev next u = call_hook r onUpdate (props_of next) u"
  using assms by (simp add: update_def from_of_def props_of_def Let_def)

lemma update_stopped:
  assumes "s_active prev" "\<not> s_active next"
  shows "update r h prev next u = call_hook r onExit (props_of prev) u"
  using assms by (simp add: update_def props_of_def Let_def)

section \<open>Properties of the lifecycle hooks\<close>

text \<open>
  Claim C1, as amended. On a moved transition (both states active, the starts of their
  ranges different) \<^verbatim>\<open>update\<close> calls \<^verbatim>\<open>onExit\<close> and then \<^verbatim>\<open>onStart\<close>, in that order and
  nothing else, and both with the properties of the new state: its range, query and text.
  This holds for any renderer; the recording renderer shows the two calls and that
  \<^verbatim>\<open>onUpdate\<close> is not called.
\<close>

theorem moved_fires_exit_then_start:
  assumes "s_active prev" and "s_active next" and "from_of h prev \<noteq> from_of h next"
  shows "update r h prev next u
           = call_hook r onStart (props_of next) (call_hook r onExit (props_of next) u)
         \<and> update (Some recorder) h prev next log
             = log @ [Exited (props_of next), Started (props_of next)]"
  using assms by (simp add: update_moved recorder_calls)

text \<open>
  The claim as stated fails: with the cursor moved from \<^verbatim>\<open>@a\<close> into \<^verbatim>\<open>@b\<close>, \<^verbatim>\<open>onExit\<close> is
  called with the range, query and text of the new session (\<^verbatim>\<open>b\<close>), not of the old
  one (\<^verbatim>\<open>a\<close>).
\<close>

theorem moved_exit_gets_new_session:
  "s_active (next_state (two_mentions ! 0)) \<and> s_active (next_state (two_mentions ! 1))
   \<and> from_of (next_heap (two_mentions ! 1)) (next_state (two_mentions ! 0)) = Some 1
   \<and> from_of (next_heap (two_mentions ! 1)) (next_state (two_mentions ! 1)) = Some 4
   \<and> s_query (next_state (two_mentions ! 0)) = Some (js ''a'')
   \<and> update (Some recorder) (next_heap (two_mentions ! 1))
        (next_state (two_mentions ! 0)) (next_state (two_mentions ! 1)) []
      = [Exited \<lparr> p_range = 2, p_query = Some (js ''b''), p_text = Some (js ''@b''),
                  p_command = next_state (two_mentions ! 1) \<rparr>,
         Started \<lparr> p_range = 2, p_query = Some (js ''b''), p_text = Some (js ''@b''),
                   p_command = next_state (two_mentions ! 1) \<rparr>]"
  by code_simp

theorem moved_fires_exit_then_start_witness:
  "update (Some recorder) (next_heap (two_mentions ! 1))
        (next_state (two_mentions ! 0)) (next_state (two_mentions ! 1)) [] 
     = [Exited (props_of (next_state (two_mentions ! 1))),
        Started (props_of (next_state (two_mentions ! 1)))]"
proof -
  have "s_active (next_state (two_mentions ! 0))" "s_active (next_state (two_mentions ! 1))"
    "from_of (next_heap (two_mentions ! 1)) (next_state (two_mentions ! 0))
       \<noteq> from_of (next_heap (two_mentions ! 1)) (next_state (two_mentions ! 1))"
    by code_simp+
  from moved_fires_exit_then_start [OF this, of "Some recorder" "[]" "[]", THEN conjunct2]
  show ?thesis by (simp only: append_Nil)
qed

text \<open>
  Claim C3. For states that are inactive, then active with query \<^verbatim>\<open>b\<close>, then active with
  query \<^verbatim>\<open>bo\<close> at the same start, then inactive, the three updates call exactly \<^verbatim>\<open>onStart\<close>
  (with the first active state), \<^verbatim>\<open>onUpdate\<close> (with the second) and \<^verbatim>\<open>onExit\<close> (with the
  second, the last active one), in that order; the state \<^verbatim>\<open>onUpdate\<close> is called with is
  active.
\<close>

theorem lifecycle_start_update_exit:
  assumes "\<not> s_active s0"
    and "s_active s1" and "s_query s1 = Some (js ''b'')"
    and "s_active s2" and "s_query s2 = Some (js ''bo'')"
    and "from_of h2 s1 = from_of h2 s2"
    and "\<not> s_active s3"
  shows "update (Some recorder) h3 s2 s3
           (update (Some recorder) h2 s1 s2
              (update (Some recorder) h1 s0 s1 []))
         = [Started (props_of s1), Updated (props_of s2), Exited (props_of s2)]
         \<and> s_active (p_command (props_of s2))
         \<and> p_query (props_of s1) = Some (js ''b'')
         \<and> p_query (props_of s2) = Some (js ''bo'')"
proof -
  have "js ''b'' \<noteq> js ''bo''" by (simp add: js_def)
  with assms have q: "s_query s1 \<noteq> s_query s2" by simp
  from assms show ?thesis
    by (simp add: update_started update_changed [OF _ _ _ q] update_stopped recorder_calls
                  props_of_def)
qed


theorem lifecycle_start_update_exit_witness:
  "update (Some recorder) (next_heap (typing_bo ! 2))
     (next_state (typing_bo ! 1)) (next_state (typing_bo ! 2))
     (update (Some recorder) (next_heap (typing_bo ! 1))
        (next_state (typing_bo ! 0)) (next_state (typing_bo ! 1))
        (update (Some recorder) (next_heap (typing_bo ! 0))
           (fst (init [])) (next_state (typing_bo ! 0)) []))
   = [Started (props_of (next_state (typing_bo ! 0))),
      Updated (props_of (next_state (typing_bo ! 1))),
      Exited (props_of (next_state (typing_bo ! 1)))]
   \<and> p_query (props_of (next_state (typing_bo ! 0))) = Some (js ''b'')
   \<and> p_query (props_of (next_state (typing_bo ! 1))) = Some (js ''bo'')
   \<and> s_active (p_command (props_of (next_state (typing_bo ! 1))))"
proof -
  have "\<not> s_active (fst (init []))"
    "s_active (next_state (typing_bo ! 0))"
    "s_query (next_state (typing_bo ! 0)) = Some (js ''b'')"
    "s_active (next_state (typing_bo ! 1))"
    "s_query (next_state (typing_bo ! 1)) = Some (js ''bo'')"
    "from_of (next_heap (typing_bo ! 1)) (next_state (typing_bo ! 0))
       = from_of (next_heap (typing_bo ! 1)) (next_state (typing_bo ! 1))"
    "\<not> s_active (next_state (typing_bo ! 2))"
    by code_simp+
  from lifecycle_start_update_exit
         [OF this, of "next_heap (typing_bo ! 2)" "next_heap (typing_bo ! 0)"]
  show ?thesis by simp
qed

lemma command_Some:
  assumes "deref h (s_range state) = Some r"
  shows "command attrs state editor h =
     Some (editor\<lparr> focused := True,
                   doc := take (rfrom r) (doc editor) @ [MentionNode attrs, Chr 0x20]
                            @ drop (rto r + (if shouldOverrideSpace editor then 1 else 0))
                                (doc editor) \<rparr>,
           h[s_range state :=
               Some (r\<lparr> rto := rto r + (if shouldOverrideSpace editor then 1 else 0) \<rparr>)])"
  using assms by (simp add: command_def insertContentAt_def Let_def)

lemma command_None:
  assumes "deref h (s_range state) = None"
  shows "command attrs state editor h = None"
  using assms by (simp add: command_def)

lemma text_run_Nil_iff: "(text_run ts = []) = (\<forall>c r. ts \<noteq> Chr c # r)"
  by (cases ts rule: text_run.cases) simp_all

lemma shouldOverrideSpace_iff:
  "shouldOverrideSpace editor =
     (selection_to editor < length (doc editor)
      \<and> doc editor ! selection_to editor = Chr 0x20)"
proof (cases "selection_to editor < length (doc editor)")
  case False
  then show ?thesis by (simp add: shouldOverrideSpace_def nodeAfter_text_def)
next
  case True
  then have d: "drop (selection_to editor) (doc editor)
                  = doc editor ! selection_to editor # drop (Suc (selection_to editor)) (doc editor)"
    by (simp add: Cons_nth_drop_Suc)
  show ?thesis
    by (cases "doc editor ! selection_to editor")
       (simp_all add: shouldOverrideSpace_def nodeAfter_text_def d True js_def)
qed

lemma spaces_after_splice:
  assumes "i \<le> length d"
  shows "spaces_after (take i d @ MentionNode a # Chr 0x20 # drop j d) i
           = Suc (length (takeWhile is_space_token (drop j d)))"
  using assms by (simp add: spaces_after_def is_space_def min_def)

lemma takeWhile_space_at: "(takeWhile is_space_token (drop j d) = []) = (\<not> space_at d j)"
  by (cases "drop j d") (simp_all add: space_at_def)

section \<open>Properties of the commit\<close>

text \<open>
  Claim C7, as amended. Neither \<^verbatim>\<open>init\<close> nor \<^verbatim>\<open>apply\<close> writes to an object that exists: each
  returns a new state whose range is a new object, and every range object of the store
  keeps its value. The \<^verbatim>\<open>command\<close> of a commit, however, writes to the range object of the
  state it was built from: it leaves \<^verbatim>\<open>from\<close> and all other range objects as they are,
  and adds one to \<^verbatim>\<open>to\<close>, in place, exactly when the node after the end of the selection
  is text that starts with a space.
\<close>

theorem ranges_frame:
  "snd (init h) = h @ [None] \<and> s_range (fst (init h)) = length h
   \<and> (\<exists>v. next_heap (apply_step t prev h) = h @ [v])
   \<and> s_range (next_state (apply_step t prev h)) = length h
   \<and> (\<forall>r < length h. deref (next_heap (apply_step t prev h)) r = deref h r)
   \<and> (command attrs state editor h = Some (editor', h') \<longrightarrow>
        length h' = length h
        \<and> (\<forall>r. r \<noteq> s_range state \<longrightarrow> deref h' r = deref h r)
        \<and> map_option rfrom (deref h' (s_range state))
            = map_option rfrom (deref h (s_range state))
        \<and> map_option rto (deref h' (s_range state))
            = map_option (\<lambda>n. if shouldOverrideSpace editor then n + 1 else n)
                (map_option rto (deref h (s_range state))))"
proof -
  have i: "snd (init h) = h @ [None] \<and> s_range (fst (init h)) = length h"
    by (simp add: init_simps)
  have a: "(\<exists>v. next_heap (apply_step t prev h) = h @ [v])
           \<and> s_range (next_state (apply_step t prev h)) = length h"
    by (cases t prev h rule: apply_step_cases) (simp_all add: inactive_result_simps)
  then have f: "\<forall>r < length h. deref (next_heap (apply_step t prev h)) r = deref h r"
    by (auto simp: deref_def nth_append)
  have c: "command attrs state editor h = Some (editor', h') \<longrightarrow>
        length h' = length h
        \<and> (\<forall>r. r \<noteq> s_range state \<longrightarrow> deref h' r = deref h r)
        \<and> map_option rfrom (deref h' (s_range state))
            = map_option rfrom (deref h (s_range state))
        \<and> map_option rto (deref h' (s_range state))
            = map_option (\<lambda>n. if shouldOverrideSpace editor then n + 1 else n)
                (map_option rto (deref h (s_range state)))"
  proof (cases "deref h (s_range state)")
    case None
    then show ?thesis by (simp add: command_None)
  next
    case (Some r)
    then have "s_range state < length h" by (simp add: deref_def split: if_splits)
    with Some show ?thesis by (auto simp: command_Some deref_def)
  qed
  from i a f c show ?thesis by blast
qed


text \<open>
  The claim as stated fails: after a commit before a space, the range of the session that
  \<^verbatim>\<open>apply\<close> had produced with \<open>to = 3\<close> has \<open>to = 4\<close>.
\<close>

theorem commit_writes_session_range:
  "deref (next_heap mention_b) (s_range (next_state mention_b)) = Some \<lparr> rfrom = 1, rto = 3 \<rparr>
   \<and> map_option (\<lambda>(e, h'). deref h' (s_range (next_state mention_b)))
        (command bob_attrs (next_state mention_b) (editor_with (js ''@b x'') 3)
           (next_heap mention_b))
       = Some (Some \<lparr> rfrom = 1, rto = 4 \<rparr>)"
  by code_simp

theorem ranges_frame_witness:
  "deref (next_heap (apply_step (cursor_at (js ''@bo'')) (next_state mention_b)
                       (next_heap mention_b))) 1
     = Some \<lparr> rfrom = 1, rto = 3 \<rparr>
   \<and> command bob_attrs (next_state mention_b) (editor_with (js ''@b x'') 3) (next_heap mention_b)
     = Some (\<lparr> doc = [Open, MentionNode bob_attrs, Chr 0x20, Chr 0x78, Close],
               selection_to = 3, focused = True \<rparr>,
             [None, Some \<lparr> rfrom = 1, rto = 4 \<rparr>])
   \<and> deref [None, Some \<lparr> rfrom = 1, rto = 4 \<rparr>] 0 = deref (next_heap mention_b) 0
   \<and> map_option rfrom (deref [None, Some \<lparr> rfrom = 1, rto = 4 \<rparr>] 1) = Some 1"
proof -
  let ?h = "next_heap mention_b"
  let ?s = "next_state mention_b"
  let ?e' = "\<lparr> doc = [Open, MentionNode bob_attrs, Chr 0x20, Chr 0x78, Close],
               selection_to = 3, focused = True \<rparr>"
  let ?h' = "[None, Some \<lparr> rfrom = 1, rto = 4 \<rparr>]"
  have c: "command bob_attrs ?s (editor_with (js ''@b x'') 3) ?h = Some (?e', ?h')"
    by code_simp
  have l: "1 < length ?h" "s_range ?s = 1" "deref ?h 1 = Some \<lparr> rfrom = 1, rto = 3 \<rparr>"
    by code_simp+
  note f = ranges_frame [of ?h "cursor_at (js ''@bo'')" ?s bob_attrs ?s
                            "editor_with (js ''@b x'') 3" ?e' ?h']
  from f l have 1: "deref (next_heap (apply_step (cursor_at (js ''@bo'')) ?s ?h)) 1
                      = Some \<lparr> rfrom = 1, rto = 3 \<rparr>"
    by metis
  from f c l have 2: "deref ?h' 0 = deref ?h 0" by simp
  from f c l have 3: "map_option rfrom (deref ?h' 1) = Some 1" by simp
  from 1 2 3 c show ?thesis by blast
qed

text \<open>
  Claim C2, as amended. For a \<^verbatim>\<open>command\<close> on a state whose range object holds \<open>from\<close> and
  \<open>to\<close>: what is inspected is the node after the end of the current selection, and the end
  is extended by one exactly when that node is text starting with the space U+0020; the
  extended end is written into the range object; the span up to it is replaced by a
  mention node with the given attributes and one space. Afterwards exactly one white
  space character follows the mention if and only if what followed the replaced span is
  not white space. With the selection ending at the end of the range this is so both when
  no white space followed the range, and when one space followed that was itself not
  followed by white space.
\<close>

theorem command_replaces_span:
  assumes "deref h (s_range state) = Some r"
  shows "shouldOverrideSpace editor
           = (selection_to editor < length (doc editor)
              \<and> doc editor ! selection_to editor = Chr 0x20)
         \<and> command attrs state editor h =
             Some (editor\<lparr> focused := True,
                           doc := take (rfrom r) (doc editor) @ [MentionNode attrs, Chr 0x20]
                                    @ drop (rto r + extension editor) (doc editor) \<rparr>,
                   h[s_range state := Some (r\<lparr> rto := rto r + extension editor \<rparr>)])
         \<and> (rfrom r \<le> length (doc editor) \<longrightarrow>
              (map_option (\<lambda>(e, _). spaces_after (doc e) (rfrom r))
                 (command attrs state editor h) = Some 1)
              = (\<not> space_at (doc editor) (rto r + extension editor)))
         \<and> (rfrom r \<le> length (doc editor) \<and> selection_to editor = rto r
              \<and> \<not> space_at (doc editor) (rto r) \<longrightarrow>
              extension editor = 0
              \<and> map_option (\<lambda>(e, _). spaces_after (doc e) (rfrom r))
                   (command attrs state editor h) = Some 1)
         \<and> (rfrom r \<le> length (doc editor) \<and> selection_to editor = rto r
              \<and> rto r < length (doc editor) \<and> doc editor ! rto r = Chr 0x20
              \<and> \<not> space_at (doc editor) (rto r + 1) \<longrightarrow>
              extension editor = 1
              \<and> map_option (\<lambda>(e, _). spaces_after (doc e) (rfrom r))
                   (command attrs state editor h) = Some 1)"
proof -
  let ?d = "doc editor"
  have c: "command attrs state editor h =
             Some (editor\<lparr> focused := True,
                           doc := take (rfrom r) ?d @ [MentionNode attrs, Chr 0x20]
                                    @ drop (rto r + extension editor) ?d \<rparr>,
                   h[s_range state := Some (r\<lparr> rto := rto r + extension editor \<rparr>)])"
    using command_Some [OF assms] by (simp add: extension_def)
  have s: "rfrom r \<le> length ?d \<Longrightarrow>
      (map_option (\<lambda>(e, _). spaces_after (doc e) (rfrom r)) (command attrs state editor h)
         = Some 1) = (\<not> space_at ?d (rto r + extension editor))"
    by (simp add: c spaces_after_splice takeWhile_space_at [symmetric])
  have n: "selection_to editor = rto r \<Longrightarrow> \<not> space_at ?d (rto r) \<Longrightarrow> extension editor = 0"
  proof -
    assume a: "selection_to editor = rto r" "\<not> space_at ?d (rto r)"
    have "\<not> shouldOverrideSpace editor"
    proof
      assume "shouldOverrideSpace editor"
      then have "rto r < length ?d" "?d ! rto r = Chr 0x20"
        using a(1) by (simp_all add: shouldOverrideSpace_iff)
      then have "space_at ?d (rto r)"
        by (simp add: space_at_def Cons_nth_drop_Suc [symmetric] is_space_def)
      with a(2) show False by simp
    qed
    then show ?thesis by (simp add: extension_def)
  qed
  have o: "selection_to editor = rto r \<Longrightarrow> rto r < length ?d \<Longrightarrow> ?d ! rto r = Chr 0x20
             \<Longrightarrow> extension editor = 1"
    by (simp add: extension_def shouldOverrideSpace_iff)
  from c s n o show ?thesis
    by (simp only: shouldOverrideSpace_iff) (metis add_0_iff)
qed


theorem command_replaces_span_witness:
  "command bob_attrs (next_state mention_b) (editor_with (js ''@b x'') 3) (next_heap mention_b)
     = Some (\<lparr> doc = [Open, MentionNode bob_attrs, Chr 0x20, Chr 0x78, Close],
               selection_to = 3, focused = True \<rparr>,
             [None, Some \<lparr> rfrom = 1, rto = 4 \<rparr>])
   \<and> map_option (\<lambda>(e, _). spaces_after (doc e) 1)
        (command bob_attrs (next_state mention_b) (editor_with (js ''@b x'') 3)
           (next_heap mention_b)) = Some 1
   \<and> command bob_attrs (next_state mention_b) (editor_with (js ''@bx'') 3) (next_heap mention_b)
     = Some (\<lparr> doc = [Open, MentionNode bob_attrs, Chr 0x20, Chr 0x78, Close],
               selection_to = 3, focused = True \<rparr>,
             [None, Some \<lparr> rfrom = 1, rto = 3 \<rparr>])
   \<and> map_option (\<lambda>(e, _). spaces_after (doc e) 1)
        (command bob_attrs (next_state mention_b) (editor_with (js ''@bx'') 3)
           (next_heap mention_b)) = Some 1"
proof -
  let ?h = "next_heap mention_b"
  let ?s = "next_state mention_b"
  let ?r = "\<lparr> rfrom = 1, rto = 3 \<rparr>"
  have d: "deref ?h (s_range ?s) = Some ?r" by code_simp
  have a: "rfrom ?r \<le> length (doc (editor_with (js ''@b x'') 3))
           \<and> selection_to (editor_with (js ''@b x'') 3) = rto ?r
           \<and> rto ?r < length (doc (editor_with (js ''@b x'') 3))
           \<and> doc (editor_with (js ''@b x'') 3) ! rto ?r = Chr 0x20
           \<and> \<not> space_at (doc (editor_with (js ''@b x'') 3)) (rto ?r + 1)"
    by code_simp
  have b: "rfrom ?r \<le> length (doc (editor_with (js ''@bx'') 3))
           \<and> selection_to (editor_with (js ''@bx'') 3) = rto ?r
           \<and> \<not> space_at (doc (editor_with (js ''@bx'') 3)) (rto ?r)"
    by code_simp
  have e: "doc (editor_with (js ''@b x'') 3) = [Open, Chr 0x40, Chr 0x62, Chr 0x20, Chr 0x78, Close]"
    "doc (editor_with (js ''@bx'') 3) = [Open, Chr 0x40, Chr 0x62, Chr 0x78, Close]"
    by (simp_all add: editor_with_def plain_paragraph_def js_def)
  note t1 = command_replaces_span [OF d, of "editor_with (js ''@b x'') 3" bob_attrs]
  note t2 = command_replaces_span [OF d, of "editor_with (js ''@bx'') 3" bob_attrs]
  from t1 a have x1: "extension (editor_with (js ''@b x'') 3) = 1"
    and s1: "map_option (\<lambda>(e, _). spaces_after (doc e) (rfrom ?r))
        (command bob_attrs ?s (editor_with (js ''@b x'') 3) ?h) = Some 1"
    by blast+
  from t2 b have x2: "extension (editor_with (js ''@bx'') 3) = 0"
    and s2: "map_option (\<lambda>(e, _). spaces_after (doc e) (rfrom ?r))
        (command bob_attrs ?s (editor_with (js ''@bx'') 3) ?h) = Some 1"
    by blast+
  have h: "?h = [None, Some ?r]" "s_range ?s = 1" by code_simp+
  from t1 x1 have c1: "command bob_attrs ?s (editor_with (js ''@b x'') 3) ?h
     = Some (\<lparr> doc = [Open, MentionNode bob_attrs, Chr 0x20, Chr 0x78, Close],
               selection_to = 3, focused = True \<rparr>,
             [None, Some \<lparr> rfrom = 1, rto = 4 \<rparr>])"
    by (simp add: e h) (simp add: editor_with_def)
  from t2 x2 have c2: "command bob_attrs ?s (editor_with (js ''@bx'') 3) ?h
     = Some (\<lparr> doc = [Open, MentionNode bob_attrs, Chr 0x20, Chr 0x78, Close],
               selection_to = 3, focused = True \<rparr>,
             [None, Some \<lparr> rfrom = 1, rto = 3 \<rparr>])"
    by (simp add: e h) (simp add: editor_with_def)
  from c1 c2 s1 s2 show ?thesis by simp
qed

text \<open>
  The claim as stated fails: a tab after the range is white space at the start of the
  following text node, yet the end is not extended, and two white space characters follow
  the mention; after two spaces the end is extended by one and again two white space
  characters follow the mention.
\<close>

theorem commit_leaves_two_spaces:
  "is_space 0x09
   \<and> nodeAfter_text (doc (editor_with [0x40, 0x62, 0x09, 0x78] 3)) 3 = Some [0x09, 0x78]
   \<and> command bob_attrs (next_state mention_b) (editor_with [0x40, 0x62, 0x09, 0x78] 3)
        (next_heap mention_b)
     = Some (\<lparr> doc = [Open, MentionNode bob_attrs, Chr 0x20, Chr 0x09, Chr 0x78, Close],
               selection_to = 3, focused = True \<rparr>,
             [None, Some \<lparr> rfrom = 1, rto = 3 \<rparr>])
   \<and> spaces_after [Open, MentionNode bob_attrs, Chr 0x20, Chr 0x09, Chr 0x78, Close] 1 = 2
   \<and> command bob_attrs (next_state mention_b) (editor_with (js ''@b  x'') 3)
        (next_heap mention_b)
     = Some (\<lparr> doc = [Open, MentionNode bob_attrs, Chr 0x20, Chr 0x20, Chr 0x78, Close],
               selection_to = 3, focused = True \<rparr>,
             [None, Some \<lparr> rfrom = 1, rto = 4 \<rparr>])
   \<and> spaces_after [Open, MentionNode bob_attrs, Chr 0x20, Chr 0x20, Chr 0x78, Close] 1 = 2"
  by code_simp

end
